theory Spec2Isabelle
  imports Complex_Main "HOL-Library.Log_Nat" "HOL-Library.Product_Lexorder" "HOL-Library.Sublist"
    "HOL-Library.Multiset"
begin

section \<open>Python values used by the measurement harness\<close>

text \<open>
  The harness is Python. Strings are modelled as lists of 8-bit characters, read as the
  code points 0 to 255; exceptions are values of the type \<open>py_error\<close> and a function
  that may raise returns \<open>py_error + 'a\<close>.
\<close>

datatype py_error =
  ValueError | OverflowError | ZeroDivisionError | OSError | KeyboardInterrupt | SystemExit

subsection \<open>Character classes and \<open>str\<close> methods\<close>

definition py_isspace :: "char \<Rightarrow> bool" where
  "py_isspace c =
     (let n = (of_char c :: nat)
      in (9 \<le> n \<and> n \<le> 13) \<or> (28 \<le> n \<and> n \<le> 32) \<or> n = 133 \<or> n = 160)"

definition is_digit :: "char \<Rightarrow> bool" where
  "is_digit c = (let n = (of_char c :: nat) in 48 \<le> n \<and> n \<le> 57)"

definition digit_val :: "char \<Rightarrow> int" where
  "digit_val c = of_char c - 48"

definition int_of_digits :: "string \<Rightarrow> int" where
  "int_of_digits ds = foldl (\<lambda>a c. 10 * a + digit_val c) 0 ds"

definition to_lower :: "char \<Rightarrow> char" where
  "to_lower c =
     (let n = (of_char c :: nat) in if 65 \<le> n \<and> n \<le> 90 then char_of (n + 32) else c)"

text \<open>\<open>s.strip()\<close>: whitespace removed at both ends.\<close>

definition py_strip :: "string \<Rightarrow> string" where
  "py_strip s = rev (dropWhile py_isspace (rev (dropWhile py_isspace s)))"

text \<open>\<open>s.endswith("m")\<close>, \<open>s[:-1]\<close> and \<open>s.rstrip("m")\<close>.\<close>

definition endswith_m :: "string \<Rightarrow> bool" where
  "endswith_m s = (s \<noteq> [] \<and> last s = CHR ''m'')"

definition drop_last :: "string \<Rightarrow> string" where
  "drop_last s = butlast s"


text \<open>An optional sign in front of a numeral: the flag says whether it is a minus.\<close>

fun split_sign :: "string \<Rightarrow> bool \<times> string" where
  "split_sign [] = (False, [])"
| "split_sign (c # cs) =
     (if c = CHR ''-'' then (True, cs) else if c = CHR ''+'' then (False, cs) else (False, c # cs))"

subsection \<open>\<open>int(str)\<close>\<close>

text \<open>
  Decimal digits in groups separated by single underscores: the numeral starts and ends
  with a digit. The flag says whether the previous character was a digit.
\<close>

fun digit_seq :: "bool \<Rightarrow> string \<Rightarrow> bool" where
  "digit_seq p [] = p"
| "digit_seq p (c # cs) =
     (if is_digit c then digit_seq True cs
      else if c = CHR ''_'' then p \<and> digit_seq False cs
      else False)"

text \<open>
  \<open>int(s)\<close> in base 10: surrounding whitespace, an optional sign, then the digits.
  \<open>None\<close> stands for the \<open>ValueError\<close> of a string that is no integer literal.
  The interpreter's limit on the number of digits of a literal is not modelled.
\<close>

definition py_int :: "string \<Rightarrow> int option" where
  "py_int s =
     (let (neg, body) = split_sign (py_strip s)
      in if digit_seq False body
         then Some ((if neg then - 1 else 1) * int_of_digits (filter is_digit body))
         else None)"

subsection \<open>Binary64 floating point\<close>

text \<open>
  A \<open>float\<close> is a finite binary64 number, kept as the rational it denotes, an infinity
  (the flag is the sign) or a NaN. The sign of a zero is not kept: no operation of the
  harness observes it.
\<close>

datatype pyfloat = Finite rat | Infinity bool | NaN

definition pow2 :: "int \<Rightarrow> rat" where
  "pow2 e = (if 0 \<le> e then 2 ^ nat e else 1 / 2 ^ nat (- e))"

text \<open>The integer \<open>e\<close> with \<open>2^e \<le> x < 2^(e+1)\<close>, for a positive rational \<open>x\<close>.\<close>

definition ilog2 :: "rat \<Rightarrow> int" where
  "ilog2 x =
     (let (p, q) = quotient_of x;
          k = bitlen p - bitlen q
      in if pow2 k \<le> x then k else k - 1)"

definition round_half_even :: "rat \<Rightarrow> int" where
  "round_half_even x =
     (let f = \<lfloor>x\<rfloor>; d = x - of_int f
      in if d < 1 / 2 then f else if 1 / 2 < d then f + 1 else if even f then f else f + 1)"

text \<open>
  Rounding of a rational magnitude to the nearest binary64 number, ties to even: 53
  significant bits, the least exponent of a subnormal is -1074, and a result of \<open>2^1024\<close>
  or more is an overflow.
\<close>

definition round_mag :: "rat \<Rightarrow> rat" where
  "round_mag a =
     (if a = 0 then 0
      else let q = max (ilog2 a - 52) (- 1074)
           in of_int (round_half_even (a / pow2 q)) * pow2 q)"

definition round_double :: "rat \<Rightarrow> pyfloat" where
  "round_double x =
     (let r = round_mag \<bar>x\<bar>
      in if pow2 1024 \<le> r then Infinity (x < 0)
         else Finite (if x < 0 then - r else r))"

text \<open>\<open>a * b\<close> on floats and \<open>int(x)\<close> on a float (truncation toward zero).\<close>

fun float_mul :: "pyfloat \<Rightarrow> pyfloat \<Rightarrow> pyfloat" where
  "float_mul (Finite a) (Finite b) = round_double (a * b)"
| "float_mul NaN _ = NaN"
| "float_mul _ NaN = NaN"
| "float_mul (Infinity s) (Finite b) = (if b = 0 then NaN else Infinity (s \<noteq> (b < 0)))"
| "float_mul (Finite a) (Infinity s) = (if a = 0 then NaN else Infinity (s \<noteq> (a < 0)))"
| "float_mul (Infinity s) (Infinity t) = Infinity (s \<noteq> t)"

fun int_of_float :: "pyfloat \<Rightarrow> py_error + int" where
  "int_of_float (Finite x) = Inr (if 0 \<le> x then \<lfloor>x\<rfloor> else - \<lfloor>- x\<rfloor>)"
| "int_of_float (Infinity s) = Inl OverflowError"
| "int_of_float NaN = Inl ValueError"

subsection \<open>\<open>float(str)\<close>\<close>

text \<open>
  Underscores in a float literal: each one stands between two digits. The first argument
  is the previous character.
\<close>

fun underscores_ok :: "char \<Rightarrow> string \<Rightarrow> bool" where
  "underscores_ok prev [] = (prev \<noteq> CHR ''_'')"
| "underscores_ok prev (c # cs) =
     ((if c = CHR ''_'' then is_digit prev else if prev = CHR ''_'' then is_digit c else True)
      \<and> underscores_ok c cs)"

text \<open>
  An exponent part: \<open>e\<close> or \<open>E\<close>, an optional sign and at least one digit, up to the
  end of the string. An empty rest is the exponent 0.
\<close>

definition parse_exponent :: "string \<Rightarrow> int option" where
  "parse_exponent s =
     (case s of
        [] \<Rightarrow> Some 0
      | c # cs \<Rightarrow>
          if to_lower c = CHR ''e''
          then (let (neg, ds) = split_sign cs
                in if ds \<noteq> [] \<and> list_all is_digit ds
                   then Some ((if neg then - 1 else 1) * int_of_digits ds)
                   else None)
          else None)"

definition pow10 :: "int \<Rightarrow> rat" where
  "pow10 e = (if 0 \<le> e then 10 ^ nat e else 1 / 10 ^ nat (- e))"

text \<open>
  The magnitude of a decimal literal: digits, an optional point and digits (at least one
  digit in all), an optional exponent.
\<close>

definition parse_decimal :: "string \<Rightarrow> rat option" where
  "parse_decimal s =
     (let ip = takeWhile is_digit s;
          r1 = dropWhile is_digit s;
          (fp, r2) = (case r1 of
                        [] \<Rightarrow> ([], [])
                      | c # cs \<Rightarrow> if c = CHR ''.''
                                  then (takeWhile is_digit cs, dropWhile is_digit cs)
                                  else ([], r1))
      in if ip @ fp = [] then None
         else (case parse_exponent r2 of
                 None \<Rightarrow> None
               | Some e \<Rightarrow>
                   Some (of_int (int_of_digits (ip @ fp)) * pow10 (e - int (length fp)))))"

text \<open>
  \<open>float(s)\<close>: \<open>None\<close> stands for the \<open>ValueError\<close> of a string that is no float
  literal. A decimal literal is rounded to the nearest binary64 number.
\<close>

definition py_float :: "string \<Rightarrow> pyfloat option" where
  "py_float s =
     (if CHR ''_'' \<in> set s \<and> \<not> underscores_ok (CHR 0x00) s then None
      else let (neg, body) = split_sign (py_strip (filter (\<lambda>c. c \<noteq> CHR ''_'') s))
           in (case parse_decimal body of
                 Some x \<Rightarrow> Some (round_double (if neg then - x else x))
               | None \<Rightarrow>
                   if map to_lower body = ''inf'' \<or> map to_lower body = ''infinity''
                   then Some (Infinity neg)
                   else if map to_lower body = ''nan'' then Some NaN
                   else None))"

section \<open>The quantity parsers\<close>

text \<open>
  \<open>parse_cpu_to_milli\<close> of the idle tracker. The conversion of a suffixed quantity,
  \<open>int(cpu[:-1])\<close>, stands outside the \<open>try\<close> block: its \<open>ValueError\<close> leaves the
  function. Inside the \<open>try\<close> block every exception gives 0.
\<close>

definition parse_cpu_to_milli :: "string \<Rightarrow> py_error + int" where
  "parse_cpu_to_milli cpu =
     (if cpu = [] \<or> cpu = ''N/A'' then Inr 0
      else let cpu = py_strip cpu
           in if endswith_m cpu
              then (case py_int (drop_last cpu) of
                      None \<Rightarrow> Inl ValueError
                    | Some n \<Rightarrow> Inr n)
              else (case py_float cpu of
                      None \<Rightarrow> Inr 0
                    | Some x \<Rightarrow>
                        (case int_of_float (float_mul x (Finite 1000)) of
                           Inl e \<Rightarrow> Inr 0
                         | Inr n \<Rightarrow> Inr n)))"

text \<open>\<open>parse_cpu\<close> of the VPA tracker has the same body.\<close>

definition parse_cpu :: "string \<Rightarrow> py_error + int" where
  "parse_cpu v =
     (if v = [] \<or> v = ''N/A'' then Inr 0
      else let v = py_strip v
           in if endswith_m v
              then (case py_int (drop_last v) of
                      None \<Rightarrow> Inl ValueError
                    | Some n \<Rightarrow> Inr n)
              else (case py_float v of
                      None \<Rightarrow> Inr 0
                    | Some x \<Rightarrow>
                        (case int_of_float (float_mul x (Finite 1000)) of
                           Inl e \<Rightarrow> Inr 0
                         | Inr n \<Rightarrow> Inr n)))"


section \<open>The timestamp parser\<close>

text \<open>
  A \<open>datetime\<close> without time zone, as \<open>datetime.strptime\<close> builds it. Two of them are
  compared field by field, the year first.
\<close>

record datetime =
  dt_year :: int
  dt_month :: int
  dt_day :: int
  dt_hour :: int
  dt_minute :: int
  dt_second :: int

definition dt_key :: "datetime \<Rightarrow> int \<times> int \<times> int \<times> int \<times> int \<times> int" where
  "dt_key d = (dt_year d, dt_month d, dt_day d, dt_hour d, dt_minute d, dt_second d)"

definition is_leap :: "int \<Rightarrow> bool" where
  "is_leap y = (y mod 4 = 0 \<and> (y mod 100 \<noteq> 0 \<or> y mod 400 = 0))"

definition days_in_month :: "int \<Rightarrow> int \<Rightarrow> int" where
  "days_in_month y m =
     (if m = 2 then (if is_leap y then 29 else 28)
      else if m = 4 \<or> m = 6 \<or> m = 9 \<or> m = 11 then 30 else 31)"

definition days_before_year :: "int \<Rightarrow> int" where
  "days_before_year y = (y - 1) * 365 + (y - 1) div 4 - (y - 1) div 100 + (y - 1) div 400"

definition days_before_month :: "int \<Rightarrow> int \<Rightarrow> int" where
  "days_before_month y m = sum_list (map (days_in_month y) [1..<nat m])"

text \<open>
  The seconds between the start of year 1 and a \<open>datetime\<close>: the difference of two such
  numbers is \<open>(a - b).total_seconds()\<close>.
\<close>

definition dt_seconds :: "datetime \<Rightarrow> int" where
  "dt_seconds d =
     (days_before_year (dt_year d) + days_before_month (dt_year d) (dt_month d) + dt_day d) * 86400
     + dt_hour d * 3600 + dt_minute d * 60 + dt_second d"

subsection \<open>\<open>datetime.strptime(ts, "%Y-%m-%dT%H:%M:%S")\<close>\<close>

text \<open>
  The format is compiled into a regular expression whose directives are alternatives tried
  in order. A matcher returns the matches of a prefix of its input in that order, each with
  the input left.
\<close>

type_synonym 'a matcher = "string \<Rightarrow> ('a \<times> string) list"

definition one_digit :: "(int \<Rightarrow> bool) \<Rightarrow> int matcher" where
  "one_digit p s =
     (case s of
        a # r \<Rightarrow> if is_digit a \<and> p (digit_val a) then [(digit_val a, r)] else []
      | [] \<Rightarrow> [])"

definition two_digits :: "(int \<Rightarrow> bool) \<Rightarrow> (int \<Rightarrow> bool) \<Rightarrow> int matcher" where
  "two_digits p q s =
     (case s of
        a # b # r \<Rightarrow>
          if is_digit a \<and> is_digit b \<and> p (digit_val a) \<and> q (digit_val b)
          then [(10 * digit_val a + digit_val b, r)] else []
      | _ \<Rightarrow> [])"

text \<open>A literal character of the format; the expression ignores case.\<close>

definition lit :: "char \<Rightarrow> unit matcher" where
  "lit c s = (case s of a # r \<Rightarrow> if to_lower a = to_lower c then [((), r)] else [] | [] \<Rightarrow> [])"

definition any_d :: "int \<Rightarrow> bool" where
  "any_d v = True"

text \<open>\<open>%Y\<close> is \<open>\d\d\d\d\<close>.\<close>

definition match_Y :: "int matcher" where
  "match_Y s =
     (case s of
        a # b # c # d # r \<Rightarrow>
          if is_digit a \<and> is_digit b \<and> is_digit c \<and> is_digit d
          then [(int_of_digits [a, b, c, d], r)] else []
      | _ \<Rightarrow> [])"

text \<open>\<open>%m\<close> is \<open>1[0-2]|0[1-9]|[1-9]\<close>.\<close>

definition match_m :: "int matcher" where
  "match_m s =
     two_digits (\<lambda>a. a = 1) (\<lambda>b. b \<le> 2) s
     @ two_digits (\<lambda>a. a = 0) (\<lambda>b. 1 \<le> b) s
     @ one_digit (\<lambda>a. 1 \<le> a) s"

text \<open>\<open>%d\<close> is \<open>3[0-1]|[1-2]\d|0[1-9]|[1-9]| [1-9]\<close>.\<close>

definition match_d :: "int matcher" where
  "match_d s =
     two_digits (\<lambda>a. a = 3) (\<lambda>b. b \<le> 1) s
     @ two_digits (\<lambda>a. 1 \<le> a \<and> a \<le> 2) any_d s
     @ two_digits (\<lambda>a. a = 0) (\<lambda>b. 1 \<le> b) s
     @ one_digit (\<lambda>a. 1 \<le> a) s
     @ (case s of
          a # r \<Rightarrow> if a = CHR '' '' then one_digit (\<lambda>b. 1 \<le> b) r else []
        | [] \<Rightarrow> [])"

text \<open>\<open>%H\<close> is \<open>2[0-3]|[0-1]\d|\d\<close>.\<close>

definition match_H :: "int matcher" where
  "match_H s =
     two_digits (\<lambda>a. a = 2) (\<lambda>b. b \<le> 3) s
     @ two_digits (\<lambda>a. a \<le> 1) any_d s
     @ one_digit any_d s"

text \<open>\<open>%M\<close> is \<open>[0-5]\d|\d\<close>.\<close>

definition match_M :: "int matcher" where
  "match_M s = two_digits (\<lambda>a. a \<le> 5) any_d s @ one_digit any_d s"

text \<open>\<open>%S\<close> is \<open>6[0-1]|[0-5]\d|\d\<close>.\<close>

definition match_S :: "int matcher" where
  "match_S s =
     two_digits (\<lambda>a. a = 6) (\<lambda>b. b \<le> 1) s
     @ two_digits (\<lambda>a. a \<le> 5) any_d s
     @ one_digit any_d s"

text \<open>One matcher after another: every match of the first, continued by the second.\<close>

definition seq :: "'a matcher \<Rightarrow> ('a \<Rightarrow> 'b matcher) \<Rightarrow> 'b matcher" where
  "seq m f s = concat (map (\<lambda>(x, r). f x r) (m s))"

definition match_iso :: "datetime matcher" where
  "match_iso =
     seq match_Y (\<lambda>y. seq (lit (CHR ''-'')) (\<lambda>_. seq match_m (\<lambda>mo. seq (lit (CHR ''-'')) (\<lambda>_.
     seq match_d (\<lambda>d. seq (lit (CHR ''T'')) (\<lambda>_. seq match_H (\<lambda>h. seq (lit (CHR '':'')) (\<lambda>_.
     seq match_M (\<lambda>mi. seq (lit (CHR '':'')) (\<lambda>_. seq match_S (\<lambda>sec. (\<lambda>r.
       [(\<lparr>dt_year = y, dt_month = mo, dt_day = d, dt_hour = h, dt_minute = mi,
          dt_second = sec\<rparr>, r)]))))))))))))"

text \<open>
  The fields \<open>strptime\<close> has matched become a \<open>datetime\<close> when they are one: the year
  is at least 1, the day exists in the month and the second is below 60.
\<close>

definition valid_datetime :: "datetime \<Rightarrow> bool" where
  "valid_datetime d =
     (1 \<le> dt_year d \<and> dt_day d \<le> days_in_month (dt_year d) (dt_month d) \<and> dt_second d \<le> 59)"

text \<open>
  \<open>strptime\<close> takes the first match of the expression, raises \<open>ValueError\<close> when there
  is none or when input is left after it, and then builds the \<open>datetime\<close>.
\<close>

definition strptime_iso :: "string \<Rightarrow> py_error + datetime" where
  "strptime_iso s =
     (case match_iso s of
        [] \<Rightarrow> Inl ValueError
      | (d, r) # _ \<Rightarrow> if r = [] \<and> valid_datetime d then Inr d else Inl ValueError)"


text \<open>\<open>ts.split(sep)[0]\<close>: the text before the first separator.\<close>

fun split_head :: "char \<Rightarrow> string \<Rightarrow> string" where
  "split_head sep [] = []"
| "split_head sep (c # cs) = (if c = sep then [] else c # split_head sep cs)"

text \<open>\<open>parse_iso\<close> of the artifact inspector; the one of the visualizer has the same body.\<close>

definition parse_iso :: "string \<Rightarrow> py_error + datetime" where
  "parse_iso ts =
     (let ts = (if CHR ''+'' \<in> set ts then split_head (CHR ''+'') ts else ts);
          ts = (if CHR ''.'' \<in> set ts then split_head (CHR ''.'') ts else ts)
      in strptime_iso ts)"

section \<open>Alignment of load runs with monitor runs\<close>

text \<open>
  A monitor sample is a JSON object; the inspector reads its \<open>iteration\<close> and its
  \<open>timestamp\<close>, the empty string when the key is missing.
\<close>

record monitor_sample =
  iteration :: int
  timestamp :: string

record load_run =
  lr_run_id :: string
  lr_started :: datetime

record monitor_run =
  mr_run_id :: string
  mr_started :: datetime
  mr_samples :: "monitor_sample list"

text \<open>
  \<open>max(xs, key=f)\<close> on a list that is not empty: the running maximum is replaced only by
  an element whose key is greater, so that the first of several maxima is returned.
\<close>

fun max_from :: "('a \<Rightarrow> 'k::linorder) \<Rightarrow> 'a \<Rightarrow> 'a list \<Rightarrow> 'a" where
  "max_from f best [] = best"
| "max_from f best (x # xs) = (if f best < f x then max_from f x xs else max_from f best xs)"

text \<open>
  The window of \<open>align_runs\<close>: a sample whose timestamp does not parse is skipped; the
  others are kept with the absolute and the signed distance, in seconds, to the start of
  the load run.
\<close>

fun window_of :: "datetime \<Rightarrow> monitor_sample list \<Rightarrow> (int \<times> int \<times> monitor_sample) list" where
  "window_of t0 [] = []"
| "window_of t0 (s # ss) =
     (case parse_iso (timestamp s) of
        Inl e \<Rightarrow> window_of t0 ss
      | Inr ts_dt \<Rightarrow>
          (let delta = dt_seconds ts_dt - dt_seconds t0
           in (\<bar>delta\<bar>, delta, s) # window_of t0 ss))"


text \<open>
  One round of the loop of \<open>align_runs\<close>: \<open>None\<close> when the load run is skipped,
  otherwise the monitor run and the window that are printed. \<open>sorted\<close> is stable, as
  \<open>sort_key\<close> is.
\<close>

definition align :: "load_run \<Rightarrow> monitor_run list
    \<Rightarrow> (monitor_run \<times> (int \<times> int \<times> monitor_sample) list) option" where
  "align lr monitor_runs =
     (let candidates = filter (\<lambda>mr. dt_key (mr_started mr) \<le> dt_key (lr_started lr)) monitor_runs
      in case candidates of
           [] \<Rightarrow> None
         | c # cs \<Rightarrow>
             (let best = max_from (\<lambda>mr. dt_key (mr_started mr)) c cs;
                  window = window_of (lr_started lr) (mr_samples best)
              in Some (best, take 3 (sort_key fst window))))"

definition align_runs :: "load_run list \<Rightarrow> monitor_run list
    \<Rightarrow> (monitor_run \<times> (int \<times> int \<times> monitor_sample) list) option list" where
  "align_runs load_runs monitor_runs = map (\<lambda>lr. align lr monitor_runs) load_runs"

section \<open>Change detection and run statistics\<close>

text \<open>The fields of a sample that \<open>print_statistics\<close> reads, all JSON integers.\<close>

record sample =
  elapsed_seconds :: int
  request_milli :: int
  limit_milli :: int
  usage_milli :: int







text \<open>
  The statistics of \<open>print_statistics\<close>. The quotients of Python are floats; here they
  are the rationals they approximate. Mean, maximum and minimum are printed only for a list
  that is not empty.
\<close>

fun usage_samples :: "sample list \<Rightarrow> int list" where
  "usage_samples [] = []"
| "usage_samples (s # ss) =
     (if usage_milli s > 0 then usage_milli s # usage_samples ss else usage_samples ss)"

definition utilization :: "sample \<Rightarrow> rat" where
  "utilization s = of_int (usage_milli s) / of_int (limit_milli s) * 100"

fun efficiency_samples :: "sample list \<Rightarrow> rat list" where
  "efficiency_samples [] = []"
| "efficiency_samples (s # ss) =
     (if limit_milli s > 0 \<and> usage_milli s > 0
      then utilization s # efficiency_samples ss
      else efficiency_samples ss)"

record stats =
  st_avg :: rat
  st_max :: rat
  st_min :: rat

definition stats_of :: "rat list \<Rightarrow> stats option" where
  "stats_of xs =
     (case xs of
        [] \<Rightarrow> None
      | x # r \<Rightarrow> Some \<lparr>st_avg = sum_list xs / of_nat (length xs),
                        st_max = foldl max x r, st_min = foldl min x r\<rparr>)"

definition usage_statistics :: "sample list \<Rightarrow> stats option" where
  "usage_statistics samples = stats_of (map of_int (usage_samples samples))"

definition utilization_statistics :: "sample list \<Rightarrow> stats option" where
  "utilization_statistics samples = stats_of (efficiency_samples samples)"

section \<open>Efficiency of a workload\<close>

text \<open>
  The three fields of a benchmark workload that \<open>calculate_efficiency\<close> reads. Numbers
  are rationals: the rounding of the floats of Python is left out. A division by zero
  raises.
\<close>

record workload =
  avg_usage_milli :: rat
  final_request_milli :: rat
  final_limit_milli :: rat

record efficiency =
  request_utilization_pct :: rat
  limit_utilization_pct :: rat
  overhead_pct :: rat

definition py_truediv :: "rat \<Rightarrow> rat \<Rightarrow> py_error + rat" where
  "py_truediv a b = (if b = 0 then Inl ZeroDivisionError else Inr (a / b))"

definition times100 :: "py_error + rat \<Rightarrow> py_error + rat" where
  "times100 r = (case r of Inl e \<Rightarrow> Inl e | Inr q \<Rightarrow> Inr (q * 100))"

definition calculate_efficiency :: "workload \<Rightarrow> py_error + efficiency" where
  "calculate_efficiency w =
     (let avg_usage = avg_usage_milli w;
          final_request = final_request_milli w;
          final_limit = final_limit_milli w
      in case (if final_request > 0 then times100 (py_truediv avg_usage final_request)
               else Inr 0) of
           Inl e \<Rightarrow> Inl e
         | Inr request_utilization \<Rightarrow>
       (case (if final_limit > 0 then times100 (py_truediv avg_usage final_limit)
              else Inr 0) of
           Inl e \<Rightarrow> Inl e
         | Inr limit_utilization \<Rightarrow>
       (case (if final_limit > 0 then times100 (py_truediv (final_limit - avg_usage) final_limit)
              else Inr 0) of
           Inl e \<Rightarrow> Inl e
         | Inr overhead \<Rightarrow>
             Inr \<lparr>request_utilization_pct = request_utilization,
                  limit_utilization_pct = limit_utilization,
                  overhead_pct = overhead\<rparr>)))"

section \<open>The sampling loop of the trackers\<close>

text \<open>
  What one round of queries of the control plane returns: the request, the limit and the
  usage of the pod, as text.
\<close>

record reading =
  r_request :: string
  r_limit :: string
  r_usage :: string

text \<open>
  A sample of the idle tracker: the elapsed time, the texts read and their values in
  milli-units. Its other fields (the wall-clock timestamp and the status texts of the
  allocation object) are copied from the environment and play no part below.
\<close>

record tracker_sample =
  ts_elapsed :: int
  ts_request :: string
  ts_limit :: string
  ts_usage :: string
  ts_request_m :: int
  ts_limit_m :: int
  ts_usage_m :: int

text \<open>
  The environment of a run. The queries of round \<open>i\<close> return a reading or raise
  (\<open>SystemExit\<close> after a timeout of the control plane, \<open>KeyboardInterrupt\<close>);
  \<open>time.sleep\<close> in round \<open>i\<close> returns or is interrupted; writing the output file and
  deleting the fixture succeed or raise.
\<close>

record env =
  reads :: "int \<Rightarrow> py_error + reading"
  sleeps :: "int \<Rightarrow> py_error option"
  now_end :: string
  write_result :: "py_error option"
  cleanup_result :: "py_error option"

record run_data =
  rd_samples :: "tracker_sample list"
  rd_end :: "string option"

text \<open>
  The observable steps of a run: a sample appended, a suspension of so many seconds, the
  run written to its file, the deletion of the fixture attempted.
\<close>

datatype event = Collected tracker_sample | Slept int | Saved run_data | Teardown

text \<open>The samples appended in a sequence of steps, in order.\<close>

fun collected :: "event list \<Rightarrow> tracker_sample list" where
  "collected [] = []"
| "collected (Collected s # evs) = s # collected evs"
| "collected (Slept t # evs) = collected evs"
| "collected (Saved rd # evs) = collected evs"
| "collected (Teardown # evs) = collected evs"

definition collect_sample :: "env \<Rightarrow> int \<Rightarrow> int \<Rightarrow> py_error + tracker_sample" where
  "collect_sample e i elapsed =
     (case reads e i of
        Inl x \<Rightarrow> Inl x
      | Inr r \<Rightarrow>
     (case parse_cpu_to_milli (r_request r) of
        Inl x \<Rightarrow> Inl x
      | Inr req_m \<Rightarrow>
     (case parse_cpu_to_milli (r_limit r) of
        Inl x \<Rightarrow> Inl x
      | Inr lim_m \<Rightarrow>
     (case parse_cpu_to_milli (r_usage r) of
        Inl x \<Rightarrow> Inl x
      | Inr use_m \<Rightarrow>
          Inr \<lparr>ts_elapsed = elapsed,
               ts_request = r_request r, ts_limit = r_limit r, ts_usage = r_usage r,
               ts_request_m = req_m, ts_limit_m = lim_m, ts_usage_m = use_m\<rparr>))))"

text \<open>\<open>time.sleep(interval)\<close> raises \<open>ValueError\<close> for a negative length.\<close>

definition sleep :: "env \<Rightarrow> int \<Rightarrow> int \<Rightarrow> py_error option" where
  "sleep e i interval = (if interval < 0 then Some ValueError else sleeps e i)"

text \<open>
  The \<open>for\<close> loop over \<open>range(iterations)\<close>, from round \<open>i\<close> on. It returns the
  exception that left it, if any, the samples and the steps so far.
\<close>

function sampling_loop :: "env \<Rightarrow> int \<Rightarrow> int \<Rightarrow> int \<Rightarrow> tracker_sample list \<times> event list
    \<Rightarrow> py_error option \<times> tracker_sample list \<times> event list" where
  "sampling_loop e interval iterations i (samples, tr) =
     (if i < iterations
      then (case collect_sample e i ((i + 1) * interval) of
              Inl x \<Rightarrow> (Some x, samples, tr)
            | Inr s \<Rightarrow>
                if i < iterations - 1
                then (case sleep e i interval of
                        Some x \<Rightarrow> (Some x, samples @ [s], tr @ [Collected s])
                      | None \<Rightarrow>
                          sampling_loop e interval iterations (i + 1)
                            (samples @ [s], tr @ [Collected s, Slept interval]))
                else sampling_loop e interval iterations (i + 1)
                       (samples @ [s], tr @ [Collected s]))
      else (None, samples, tr))"
  by pat_completeness auto
termination
  by (relation "measure (\<lambda>(e, interval, iterations, i, st). nat (iterations - i))") auto

text \<open>
  The \<open>finally\<close> block: the end time is set and the run is written; then, unless
  cleanup is switched off, the fixture is deleted. An exception raised in the block
  replaces the one that was on its way.
\<close>

definition finish :: "env \<Rightarrow> bool \<Rightarrow> tracker_sample list \<Rightarrow> event list \<Rightarrow> py_error option
    \<Rightarrow> event list \<times> py_error option" where
  "finish e no_cleanup samples tr pending =
     (case write_result e of
        Some x \<Rightarrow> (tr, Some x)
      | None \<Rightarrow>
          (let tr = tr @ [Saved \<lparr>rd_samples = samples, rd_end = Some (now_end e)\<rparr>]
           in if \<not> no_cleanup
              then (case cleanup_result e of
                      Some x \<Rightarrow> (tr @ [Teardown], Some x)
                    | None \<Rightarrow> (tr @ [Teardown], pending))
              else (tr, pending)))"

text \<open>
  \<open>main\<close> of the idle tracker from the computation of \<open>iterations\<close> on: the steps of
  the run and the exception that ends the program, if any. \<open>KeyboardInterrupt\<close> is
  caught; the division is outside the \<open>try\<close> block.
\<close>

definition track_idle :: "env \<Rightarrow> bool \<Rightarrow> int \<Rightarrow> int \<Rightarrow> event list \<times> py_error option" where
  "track_idle e no_cleanup duration interval =
     (if interval = 0 then ([], Some ZeroDivisionError)
      else let iterations = duration div interval;
               (exc, samples, tr) = sampling_loop e interval iterations 0 ([], [])
           in finish e no_cleanup samples tr
                (if exc = Some KeyboardInterrupt then None else exc))"

text \<open>\<open>main\<close> of the VPA tracker has no \<open>except\<close> clause.\<close>

definition track_vpa :: "env \<Rightarrow> bool \<Rightarrow> int \<Rightarrow> int \<Rightarrow> event list \<times> py_error option" where
  "track_vpa e no_cleanup duration interval =
     (if interval = 0 then ([], Some ZeroDivisionError)
      else let steps = duration div interval;
               (exc, samples, tr) = sampling_loop e interval steps 0 ([], [])
           in finish e no_cleanup samples tr exc)"

section \<open>Properties of the quantity parsers\<close>

subsection \<open>Evaluation of powers by squaring\<close>

lemma pow_halve:
  fixes b :: rat
  assumes "0 < e"
  shows "b ^ nat e = (let h = b ^ nat (e div 2) in if even e then h * h else b * h * h)"
proof -
  have e: "nat e = nat (e div 2) + nat (e div 2) + (if even e then 0 else 1)"
    using assms by (auto elim!: evenE oddE)
  show ?thesis
    by (subst e) (simp add: Let_def power_add)
qed

lemma pow2_code [code]:
  "pow2 e =
     (if e = 0 then 1
      else if e < 0 then 1 / pow2 (- e)
      else let h = pow2 (e div 2) in if even e then h * h else 2 * h * h)"
proof -
  have "0 < e \<Longrightarrow> 0 \<le> e div 2" by simp
  then show ?thesis
    using pow_halve [of e 2] by (auto simp: pow2_def Let_def)
qed

lemma pow10_code [code]:
  "pow10 e =
     (if e = 0 then 1
      else if e < 0 then 1 / pow10 (- e)
      else let h = pow10 (e div 2) in if even e then h * h else 10 * h * h)"
proof -
  have "0 < e \<Longrightarrow> 0 \<le> e div 2" by simp
  then show ?thesis
    using pow_halve [of e 10] by (auto simp: pow10_def Let_def)
qed

subsection \<open>Signs\<close>















lemma parse_cpu_eq: "parse_cpu s = parse_cpu_to_milli s"
  by (simp add: parse_cpu_def parse_cpu_to_milli_def)


subsection \<open>The two forms of one half\<close>

lemma parse_half: "parse_cpu_to_milli ''0.5'' = Inr 500"
  by code_simp

lemma parse_500m: "parse_cpu_to_milli ''500m'' = Inr 500"
  by code_simp




text \<open>
  Claim C9. The strings \<open>500m\<close> and \<open>0.5\<close> both parse to 500. A suffixed integer and
  the whole-unit decimal of the same quantity do not parse to equal integers in general:
  \<open>1001m\<close> gives 1001, while \<open>1.001\<close> gives 1000, since the product of the binary64
  number nearest to 1.001 with 1000 rounds to a number below 1001, which \<open>int\<close>
  truncates.
\<close>

theorem decimal_and_milli_forms_disagree:
  "parse_cpu_to_milli ''500m'' = Inr 500 \<and> parse_cpu_to_milli ''0.5'' = Inr 500
   \<and> parse_cpu_to_milli ''1001m'' = Inr 1001 \<and> parse_cpu_to_milli ''1.001'' = Inr 1000
   \<and> parse_cpu ''1001m'' = Inr 1001 \<and> parse_cpu ''1.001'' = Inr 1000"
proof -
  have "parse_cpu_to_milli ''1001m'' = Inr 1001" "parse_cpu_to_milli ''1.001'' = Inr 1000"
    by code_simp+
  then show ?thesis
    by (simp add: parse_half parse_500m parse_cpu_eq)
qed

subsection \<open>The helper of the artifact inspector\<close>





section \<open>Properties of the timestamp parser\<close>








section \<open>Properties of the alignment\<close>














section \<open>Properties of change detection\<close>






section \<open>Properties of the run statistics\<close>

lemma usage_samples_filter:
  "usage_samples ss = map usage_milli (filter (\<lambda>s. 0 < usage_milli s) ss)"
  by (induction ss) simp_all

lemma efficiency_samples_filter:
  "efficiency_samples ss =
     map utilization (filter (\<lambda>s. 0 < limit_milli s \<and> 0 < usage_milli s) ss)"
  by (induction ss) simp_all

lemma foldl_max_Max: "foldl max x xs = Max (set (x # xs))" for x :: rat
proof (induction xs arbitrary: x)
  case Nil
  then show ?case by simp
next
  case (Cons y ys)
  have "Max (insert x (insert y (set ys))) = Max (insert (max x y) (set ys))"
    by (cases "set ys = {}") (simp_all add: max.assoc)
  with Cons show ?case by simp
qed

lemma foldl_min_Min: "foldl min x xs = Min (set (x # xs))" for x :: rat
proof (induction xs arbitrary: x)
  case Nil
  then show ?case by simp
next
  case (Cons y ys)
  have "Min (insert x (insert y (set ys))) = Min (insert (min x y) (set ys))"
    by (cases "set ys = {}") (simp_all add: min.assoc)
  with Cons show ?case by simp
qed

lemma stats_of_eq:
  "stats_of xs =
     (if xs = [] then None
      else Some \<lparr>st_avg = sum_list xs / of_nat (length xs),
                 st_max = Max (set xs), st_min = Min (set xs)\<rparr>)"
  by (cases xs) (simp_all add: stats_of_def foldl_max_Max foldl_min_Min)

text \<open>
  Claim C5, as amended. The mean, maximum and minimum of the usage are taken over exactly
  the samples whose usage is positive, and those of the utilization (usage / limit * 100)
  over exactly the samples whose limit and usage are both positive. A sample outside the
  filter is left out of the statistics, not counted as zero; a sample with a positive
  limit and the usage 0 is such a sample.
\<close>

theorem statistics_over_positive_usage:
  "usage_samples ss = map usage_milli (filter (\<lambda>s. 0 < usage_milli s) ss)
   \<and> efficiency_samples ss =
       map utilization (filter (\<lambda>s. 0 < limit_milli s \<and> 0 < usage_milli s) ss)
   \<and> usage_statistics ss =
       (if usage_samples ss = [] then None
        else Some \<lparr>st_avg = of_int (sum_list (usage_samples ss)) / of_nat (length (usage_samples ss)),
                   st_max = of_int (Max (set (usage_samples ss))),
                   st_min = of_int (Min (set (usage_samples ss)))\<rparr>)
   \<and> utilization_statistics ss =
       (if efficiency_samples ss = [] then None
        else Some \<lparr>st_avg = sum_list (efficiency_samples ss) / of_nat (length (efficiency_samples ss)),
                   st_max = Max (set (efficiency_samples ss)),
                   st_min = Min (set (efficiency_samples ss))\<rparr>)
   \<and> (limit_milli s \<le> 0 \<or> usage_milli s \<le> 0
        \<longrightarrow> utilization_statistics (ss @ s # ss') = utilization_statistics (ss @ ss'))
   \<and> (usage_milli s \<le> 0 \<longrightarrow> usage_statistics (ss @ s # ss') = usage_statistics (ss @ ss'))"
proof (intro conjI impI)
  show "usage_samples ss = map usage_milli (filter (\<lambda>s. 0 < usage_milli s) ss)"
    by (rule usage_samples_filter)
  show "efficiency_samples ss =
       map utilization (filter (\<lambda>s. 0 < limit_milli s \<and> 0 < usage_milli s) ss)"
    by (rule efficiency_samples_filter)
  show "utilization_statistics ss =
       (if efficiency_samples ss = [] then None
        else Some \<lparr>st_avg = sum_list (efficiency_samples ss) / of_nat (length (efficiency_samples ss)),
                   st_max = Max (set (efficiency_samples ss)),
                   st_min = Min (set (efficiency_samples ss))\<rparr>)"
    by (simp add: utilization_statistics_def stats_of_eq)
  have mono: "mono (of_int :: int \<Rightarrow> rat)" by (simp add: mono_def)
  have sum: "sum_list (map of_int xs) = (of_int (sum_list xs) :: rat)" for xs
    by (induction xs) simp_all
  have "Max (of_int ` set xs) = (of_int (Max (set xs)) :: rat)"
       "Min (of_int ` set xs) = (of_int (Min (set xs)) :: rat)" if "xs \<noteq> []" for xs :: "int list"
    using that mono_Max_commute [OF mono, of "set xs"] mono_Min_commute [OF mono, of "set xs"]
    by simp_all
  then show "usage_statistics ss =
       (if usage_samples ss = [] then None
        else Some \<lparr>st_avg = of_int (sum_list (usage_samples ss)) / of_nat (length (usage_samples ss)),
                   st_max = of_int (Max (set (usage_samples ss))),
                   st_min = of_int (Min (set (usage_samples ss)))\<rparr>)"
    by (simp add: usage_statistics_def stats_of_eq sum)
  show "utilization_statistics (ss @ s # ss') = utilization_statistics (ss @ ss')"
    if "limit_milli s \<le> 0 \<or> usage_milli s \<le> 0"
    using that by (auto simp: utilization_statistics_def efficiency_samples_filter)
  show "usage_statistics (ss @ s # ss') = usage_statistics (ss @ ss')" if "usage_milli s \<le> 0"
    using that by (simp add: usage_statistics_def usage_samples_filter)
qed

text \<open>
  The claim as first stated fails: of two samples with the limit 1000, the first with the
  usage 0 and the second with the usage 500, only the second enters the utilization
  statistics, whose mean and minimum are 50 and not 25 and 0.
\<close>

theorem idle_sample_excluded_counterexample:
  "utilization_statistics
     [\<lparr>elapsed_seconds = 5, request_milli = 500, limit_milli = 1000, usage_milli = 0\<rparr>,
      \<lparr>elapsed_seconds = 10, request_milli = 500, limit_milli = 1000, usage_milli = 500\<rparr>]
   = Some \<lparr>st_avg = 50, st_max = 50, st_min = 50\<rparr>"
  by (simp add: utilization_statistics_def stats_of_def utilization_def)

theorem statistics_over_positive_usage_witness:
  "(limit_milli \<lparr>elapsed_seconds = 5, request_milli = 500, limit_milli = 1000, usage_milli = 0\<rparr> \<le> 0
    \<or> usage_milli \<lparr>elapsed_seconds = 5, request_milli = 500, limit_milli = 1000, usage_milli = 0\<rparr> \<le> 0)
   \<and> utilization_statistics
       ([] @ \<lparr>elapsed_seconds = 5, request_milli = 500, limit_milli = 1000, usage_milli = 0\<rparr>
          # [\<lparr>elapsed_seconds = 10, request_milli = 500, limit_milli = 1000, usage_milli = 500\<rparr>])
     = utilization_statistics
       ([] @ [\<lparr>elapsed_seconds = 10, request_milli = 500, limit_milli = 1000, usage_milli = 500\<rparr>])
   \<and> usage_statistics
       ([] @ \<lparr>elapsed_seconds = 5, request_milli = 500, limit_milli = 1000, usage_milli = 0\<rparr>
          # [\<lparr>elapsed_seconds = 10, request_milli = 500, limit_milli = 1000, usage_milli = 500\<rparr>])
     = Some \<lparr>st_avg = 500, st_max = 500, st_min = 500\<rparr>"
  using statistics_over_positive_usage
    [of "[]" "\<lparr>elapsed_seconds = 5, request_milli = 500, limit_milli = 1000, usage_milli = 0\<rparr>"
        "[\<lparr>elapsed_seconds = 10, request_milli = 500, limit_milli = 1000, usage_milli = 500\<rparr>]"]
  by (simp add: usage_statistics_def stats_of_def)

section \<open>Properties of the efficiency metrics\<close>

text \<open>
  Claim C4. \<open>calculate_efficiency\<close> never raises. The request utilization is usage /
  request * 100 when the request is positive, the limit utilization is usage / limit * 100
  and the overhead is (limit - usage) / limit * 100 when the limit is positive, and each of
  the three is 0 when its denominator is not positive: a usage of 400 with the limit 0
  gives the overhead 0 and no division error. When the usage exceeds a positive limit the
  overhead is negative: it is not clamped to 0.
\<close>

theorem calculate_efficiency_guarded:
  "calculate_efficiency w =
     Inr \<lparr>request_utilization_pct =
            (if final_request_milli w > 0
             then avg_usage_milli w / final_request_milli w * 100 else 0),
          limit_utilization_pct =
            (if final_limit_milli w > 0
             then avg_usage_milli w / final_limit_milli w * 100 else 0),
          overhead_pct =
            (if final_limit_milli w > 0
             then (final_limit_milli w - avg_usage_milli w) / final_limit_milli w * 100 else 0)\<rparr>
   \<and> (0 < final_limit_milli w \<and> final_limit_milli w < avg_usage_milli w
        \<longrightarrow> (\<exists>e. calculate_efficiency w = Inr e \<and> overhead_pct e < 0))
   \<and> (\<exists>e. calculate_efficiency
              \<lparr>avg_usage_milli = 400, final_request_milli = r, final_limit_milli = 0\<rparr> = Inr e
            \<and> overhead_pct e = 0 \<and> limit_utilization_pct e = 0)"
proof -
  have eq: "calculate_efficiency w =
     Inr \<lparr>request_utilization_pct =
            (if final_request_milli w > 0
             then avg_usage_milli w / final_request_milli w * 100 else 0),
          limit_utilization_pct =
            (if final_limit_milli w > 0
             then avg_usage_milli w / final_limit_milli w * 100 else 0),
          overhead_pct =
            (if final_limit_milli w > 0
             then (final_limit_milli w - avg_usage_milli w) / final_limit_milli w * 100 else 0)\<rparr>"
    for w
    by (simp add: calculate_efficiency_def py_truediv_def times100_def Let_def)
  have neg: "(l * 100 - u * 100) / l < 0" if "0 < l" "l < u" for l u :: rat
    using that by (intro divide_neg_pos) simp_all
  show ?thesis
    by (intro conjI impI) (simp_all add: eq neg)
qed

theorem calculate_efficiency_guarded_witness:
  "(0::rat) < 1000 \<and> (1000::rat) < 1200
   \<and> (\<exists>e. calculate_efficiency
              \<lparr>avg_usage_milli = 1200, final_request_milli = 500, final_limit_milli = 1000\<rparr> = Inr e
            \<and> overhead_pct e = - 20)"
  using calculate_efficiency_guarded
    [of "\<lparr>avg_usage_milli = 1200, final_request_milli = 500, final_limit_milli = 1000\<rparr>"]
  by simp

section \<open>Properties of the sampling loop\<close>

lemma collect_sample_elapsed: "collect_sample e i t = Inr s \<Longrightarrow> ts_elapsed s = t"
  by (auto simp: collect_sample_def split: sum.splits)

declare sampling_loop.simps [simp del]

lemma loop_stop: "\<not> i < n \<Longrightarrow> sampling_loop e v n i (samples, tr) = (None, samples, tr)"
  by (simp add: sampling_loop.simps)

lemma loop_raise:
  "i < n \<Longrightarrow> collect_sample e i ((i + 1) * v) = Inl x
   \<Longrightarrow> sampling_loop e v n i (samples, tr) = (Some x, samples, tr)"
  by (simp add: sampling_loop.simps)

lemma loop_interrupted:
  "i < n - 1 \<Longrightarrow> collect_sample e i ((i + 1) * v) = Inr s \<Longrightarrow> sleep e i v = Some x
   \<Longrightarrow> sampling_loop e v n i (samples, tr) = (Some x, samples @ [s], tr @ [Collected s])"
  by (simp add: sampling_loop.simps)

lemma loop_next:
  "i < n - 1 \<Longrightarrow> collect_sample e i ((i + 1) * v) = Inr s \<Longrightarrow> sleep e i v = None
   \<Longrightarrow> sampling_loop e v n i (samples, tr)
       = sampling_loop e v n (i + 1) (samples @ [s], tr @ [Collected s, Slept v])"
  by (simp add: sampling_loop.simps)

lemma loop_last:
  "i < n \<Longrightarrow> \<not> i < n - 1 \<Longrightarrow> collect_sample e i ((i + 1) * v) = Inr s
   \<Longrightarrow> sampling_loop e v n i (samples, tr)
       = sampling_loop e v n (i + 1) (samples @ [s], tr @ [Collected s])"
  by (simp add: sampling_loop.simps)

text \<open>What the loop adds to the samples and to the steps.\<close>

lemma loop_invariant:
  "sampling_loop e v n i (samples, tr) = (exc, samples', tr')
   \<Longrightarrow> \<exists>new evs. samples' = samples @ new \<and> tr' = tr @ evs
         \<and> int (length new) \<le> max 0 (n - i)
         \<and> (\<forall>j<length new. ts_elapsed (new ! j) = (i + int j + 1) * v)
         \<and> (\<forall>ev\<in>set evs. (\<exists>s. ev = Collected s) \<or> ev = Slept v)
         \<and> (exc = None \<longrightarrow> int (length new) = max 0 (n - i)
               \<and> evs = concat (map (\<lambda>s. [Collected s, Slept v]) (butlast new))
                        @ (if new = [] then [] else [Collected (last new)]))"
proof (induction e v n i "(samples, tr)" arbitrary: samples tr rule: sampling_loop.induct)
  case (1 e v n i samples tr)
  note prem = "1.prems"
  show ?case
  proof (cases "i < n")
    case False
    with prem have "samples' = samples @ [] \<and> tr' = tr @ [] \<and> exc = None"
      by (simp add: loop_stop)
    with False show ?thesis by (intro exI [of _ "[]"]) simp
  next
    case inrange: True
    show ?thesis
    proof (cases "collect_sample e i ((i + 1) * v)")
      case (Inl x)
      with prem inrange have "samples' = samples @ [] \<and> tr' = tr @ [] \<and> exc = Some x"
        by (simp add: loop_raise)
      then show ?thesis by (intro exI [of _ "[]"]) simp
    next
      case (Inr s)
      have el: "ts_elapsed s = (i + 1) * v"
        using Inr by (rule collect_sample_elapsed)
      show ?thesis
      proof (cases "i < n - 1")
        case more: True
        show ?thesis
        proof (cases "sleep e i v")
          case (Some x)
          with prem more Inr
          have "samples' = samples @ [s] \<and> tr' = tr @ [Collected s] \<and> exc = Some x"
            by (simp add: loop_interrupted)
          with el inrange show ?thesis
            by (intro exI [of _ "[s]"] exI [of _ "[Collected s]"]) simp
        next
          case None
          with prem more Inr have "sampling_loop e v n (i + 1)
              (samples @ [s], tr @ [Collected s, Slept v]) = (exc, samples', tr')"
            by (simp add: loop_next)
          from "1.hyps"(1) [OF inrange Inr more None this]
          obtain new evs where ih: "samples' = (samples @ [s]) @ new"
            "tr' = (tr @ [Collected s, Slept v]) @ evs"
            "int (length new) \<le> max 0 (n - (i + 1))"
            "\<forall>j<length new. ts_elapsed (new ! j) = (i + 1 + int j + 1) * v"
            "\<forall>ev\<in>set evs. (\<exists>s. ev = Collected s) \<or> ev = Slept v"
            "exc = None \<longrightarrow> int (length new) = max 0 (n - (i + 1))
               \<and> evs = concat (map (\<lambda>s. [Collected s, Slept v]) (butlast new))
                        @ (if new = [] then [] else [Collected (last new)])"
            by blast
          have idx: "\<forall>j<length (s # new). ts_elapsed ((s # new) ! j) = (i + int j + 1) * v"
          proof (intro allI impI)
            fix j assume "j < length (s # new)"
            then show "ts_elapsed ((s # new) ! j) = (i + int j + 1) * v"
              using el ih(4) by (cases j) (simp_all add: algebra_simps)
          qed
          have fin: "exc = None \<longrightarrow> int (length (s # new)) = max 0 (n - i)
               \<and> [Collected s, Slept v] @ evs
                  = concat (map (\<lambda>s. [Collected s, Slept v]) (butlast (s # new)))
                        @ (if s # new = [] then [] else [Collected (last (s # new))])"
          proof
            assume "exc = None"
            with ih(6) more have "int (length new) = n - (i + 1)"
              and evs: "evs = concat (map (\<lambda>s. [Collected s, Slept v]) (butlast new))
                        @ (if new = [] then [] else [Collected (last new)])"
              by simp_all
            with more have "new \<noteq> []" by auto
            with evs \<open>int (length new) = n - (i + 1)\<close> more
            show "int (length (s # new)) = max 0 (n - i)
               \<and> [Collected s, Slept v] @ evs
                  = concat (map (\<lambda>s. [Collected s, Slept v]) (butlast (s # new)))
                        @ (if s # new = [] then [] else [Collected (last (s # new))])"
              by simp
          qed
          show ?thesis
            using ih(1,2,3,5) idx fin more
            by (intro exI [of _ "s # new"] exI [of _ "[Collected s, Slept v] @ evs"]) auto
        qed
      next
        case final: False
        with prem inrange Inr have "sampling_loop e v n (i + 1)
              (samples @ [s], tr @ [Collected s]) = (exc, samples', tr')"
          by (simp add: loop_last)
        moreover have "\<not> i + 1 < n" using final by simp
        ultimately have "samples' = samples @ [s] \<and> tr' = tr @ [Collected s] \<and> exc = None"
          by (simp add: loop_stop)
        moreover have "n - i = 1" using final inrange by simp
        ultimately show ?thesis
          using el by (intro exI [of _ "[s]"] exI [of _ "[Collected s]"]) simp
      qed
    qed
  qed
qed

text \<open>With no exception in any round the loop ends without one.\<close>

lemma loop_completes:
  "\<forall>k. i \<le> k \<and> k < n \<longrightarrow> (\<exists>s. collect_sample e k ((k + 1) * v) = Inr s) \<and> sleep e k v = None
   \<Longrightarrow> fst (sampling_loop e v n i (samples, tr)) = None"
proof (induction e v n i "(samples, tr)" arbitrary: samples tr rule: sampling_loop.induct)
  case (1 e v n i samples tr)
  show ?case
  proof (cases "i < n")
    case False
    then show ?thesis by (simp add: loop_stop)
  next
    case True
    with "1.prems" obtain s where s: "collect_sample e i ((i + 1) * v) = Inr s"
      and sl: "sleep e i v = None" by auto
    have rest: "\<forall>k. i + 1 \<le> k \<and> k < n
        \<longrightarrow> (\<exists>s. collect_sample e k ((k + 1) * v) = Inr s) \<and> sleep e k v = None"
      using "1.prems" by auto
    show ?thesis
    proof (cases "i < n - 1")
      case more: True
      from "1.hyps"(1) [OF True s more sl rest] show ?thesis
        using more s sl by (simp add: loop_next)
    next
      case False
      from "1.hyps"(2) [OF True s False rest] show ?thesis
        using True False s by (simp add: loop_last)
    qed
  qed
qed

lemma collected_append: "collected (xs @ ys) = collected xs @ collected ys"
  by (induction xs rule: collected.induct) simp_all

lemma loop_collected:
  "sampling_loop e v n i (samples, tr) = (exc, samples', tr') \<Longrightarrow> collected tr = samples
   \<Longrightarrow> collected tr' = samples'"
proof (induction e v n i "(samples, tr)" arbitrary: samples tr rule: sampling_loop.induct)
  case (1 e v n i samples tr)
  show ?case
  proof (cases "i < n")
    case False
    with "1.prems" show ?thesis by (simp add: loop_stop)
  next
    case inrange: True
    show ?thesis
    proof (cases "collect_sample e i ((i + 1) * v)")
      case (Inl x)
      with "1.prems" inrange show ?thesis by (simp add: loop_raise)
    next
      case (Inr s)
      show ?thesis
      proof (cases "i < n - 1")
        case more: True
        show ?thesis
        proof (cases "sleep e i v")
          case (Some x)
          with "1.prems" more Inr show ?thesis
            by (auto simp: loop_interrupted collected_append)
        next
          case None
          with "1.prems" more Inr have "sampling_loop e v n (i + 1)
              (samples @ [s], tr @ [Collected s, Slept v]) = (exc, samples', tr')"
            by (simp add: loop_next)
          moreover have "collected (tr @ [Collected s, Slept v]) = samples @ [s]"
            using "1.prems"(2) by (simp add: collected_append)
          ultimately show ?thesis
            by (rule "1.hyps"(1) [OF inrange Inr more None])
        qed
      next
        case final: False
        with "1.prems" inrange Inr have "sampling_loop e v n (i + 1)
              (samples @ [s], tr @ [Collected s]) = (exc, samples', tr')"
          by (simp add: loop_last)
        moreover have "collected (tr @ [Collected s]) = samples @ [s]"
          using "1.prems"(2) by (simp add: collected_append)
        ultimately show ?thesis
          by (rule "1.hyps"(2) [OF inrange Inr final])
      qed
    qed
  qed
qed

text \<open>
  Claim C6. For a positive interval \<open>v\<close> and a duration \<open>d\<close>, the loop of the trackers
  appends at most \<open>d div v\<close> samples; the sample at position \<open>j\<close>, counted from 0, has
  the elapsed time \<open>(j + 1) * v\<close>, so that the elapsed times increase strictly in steps
  of \<open>v\<close>. A loop that no exception leaves makes exactly \<open>d div v\<close> rounds (none for a
  negative duration), and its steps are one suspension of \<open>v\<close> seconds after every
  sample but the last, and none after the last. The loop is left by no exception when
  every round of queries returns readings that parse and no suspension is interrupted.
\<close>

theorem sampling_loop_schedule:
  assumes "0 < v"
    and "sampling_loop e v (d div v) 0 ([], []) = (exc, samples, tr)"
  shows "int (length samples) \<le> max 0 (d div v)
    \<and> (\<forall>j<length samples. ts_elapsed (samples ! j) = (int j + 1) * v)
    \<and> (\<forall>j. Suc j < length samples
          \<longrightarrow> ts_elapsed (samples ! j) < ts_elapsed (samples ! Suc j)
              \<and> ts_elapsed (samples ! Suc j) - ts_elapsed (samples ! j) = v)
    \<and> collected tr = samples
    \<and> (exc = None \<longrightarrow> int (length samples) = max 0 (d div v)
          \<and> (0 \<le> d \<longrightarrow> int (length samples) = d div v)
          \<and> tr = concat (map (\<lambda>s. [Collected s, Slept v]) (butlast samples))
                 @ (if samples = [] then [] else [Collected (last samples)]))
    \<and> ((\<forall>k. 0 \<le> k \<and> k < d div v
            \<longrightarrow> (\<exists>s. collect_sample e k ((k + 1) * v) = Inr s) \<and> sleeps e k = None)
         \<longrightarrow> exc = None)"
proof -
  from loop_invariant [OF assms(2)]
  have len: "int (length samples) \<le> max 0 (d div v)"
    and el: "\<forall>j<length samples. ts_elapsed (samples ! j) = (int j + 1) * v"
    and fin: "exc = None \<longrightarrow> int (length samples) = max 0 (d div v)
          \<and> tr = concat (map (\<lambda>s. [Collected s, Slept v]) (butlast samples))
                 @ (if samples = [] then [] else [Collected (last samples)])"
    by auto
  have step: "\<forall>j. Suc j < length samples
          \<longrightarrow> ts_elapsed (samples ! j) < ts_elapsed (samples ! Suc j)
              \<and> ts_elapsed (samples ! Suc j) - ts_elapsed (samples ! j) = v"
  proof (intro allI impI)
    fix j assume j: "Suc j < length samples"
    then have "ts_elapsed (samples ! j) = (int j + 1) * v"
      and "ts_elapsed (samples ! Suc j) = (int (Suc j) + 1) * v"
      using el by simp_all
    then show "ts_elapsed (samples ! j) < ts_elapsed (samples ! Suc j)
              \<and> ts_elapsed (samples ! Suc j) - ts_elapsed (samples ! j) = v"
      using assms(1) by (simp add: algebra_simps)
  qed
  have col: "collected tr = samples"
    using loop_collected [OF assms(2)] by simp
  have nonneg: "0 \<le> d \<longrightarrow> max 0 (d div v) = d div v"
    using assms(1) by (simp add: pos_imp_zdiv_nonneg_iff)
  have comp: "(\<forall>k. 0 \<le> k \<and> k < d div v
            \<longrightarrow> (\<exists>s. collect_sample e k ((k + 1) * v) = Inr s) \<and> sleeps e k = None)
         \<longrightarrow> exc = None"
  proof
    assume "\<forall>k. 0 \<le> k \<and> k < d div v
            \<longrightarrow> (\<exists>s. collect_sample e k ((k + 1) * v) = Inr s) \<and> sleeps e k = None"
    then have "\<forall>k. 0 \<le> k \<and> k < d div v
            \<longrightarrow> (\<exists>s. collect_sample e k ((k + 1) * v) = Inr s) \<and> sleep e k v = None"
      using assms(1) by (simp add: sleep_def)
    from loop_completes [OF this, of "[]" "[]"] assms(2) show "exc = None" by simp
  qed
  from len el step col fin nonneg comp show ?thesis by simp
qed

theorem sampling_loop_schedule_witness:
  "(0::int) < 5
   \<and> fst (sampling_loop
        \<lparr>reads = (\<lambda>i. Inr \<lparr>r_request = ''500m'', r_limit = ''500m'', r_usage = ''500m''\<rparr>),
         sleeps = (\<lambda>i. None), now_end = ''end'', write_result = None, cleanup_result = None\<rparr>
        5 (17 div 5) 0 ([], [])) = None
   \<and> int (length (fst (snd (sampling_loop
        \<lparr>reads = (\<lambda>i. Inr \<lparr>r_request = ''500m'', r_limit = ''500m'', r_usage = ''500m''\<rparr>),
         sleeps = (\<lambda>i. None), now_end = ''end'', write_result = None, cleanup_result = None\<rparr>
        5 (17 div 5) 0 ([], []))))) = 3
   \<and> ts_elapsed (fst (snd (sampling_loop
        \<lparr>reads = (\<lambda>i. Inr \<lparr>r_request = ''500m'', r_limit = ''500m'', r_usage = ''500m''\<rparr>),
         sleeps = (\<lambda>i. None), now_end = ''end'', write_result = None, cleanup_result = None\<rparr>
        5 (17 div 5) 0 ([], []))) ! 2) = 15"
proof -
  let ?e = "\<lparr>reads = (\<lambda>i. Inr \<lparr>r_request = ''500m'', r_limit = ''500m'', r_usage = ''500m''\<rparr>),
         sleeps = (\<lambda>i. None), now_end = ''end'', write_result = None, cleanup_result = None\<rparr>"
  obtain exc samples tr where r: "sampling_loop ?e 5 (17 div 5) 0 ([], []) = (exc, samples, tr)"
    by (cases "sampling_loop ?e 5 (17 div 5) 0 ([], [])") auto
  have ok: "\<forall>k. 0 \<le> k \<and> k < 17 div 5
      \<longrightarrow> (\<exists>s. collect_sample ?e k ((k + 1) * 5) = Inr s) \<and> sleeps ?e k = None"
    by (simp add: collect_sample_def parse_500m)
  have pos: "(0::int) < 5" by simp
  note th = sampling_loop_schedule [OF pos r]
  from th ok have "exc = None" by blast
  moreover from th \<open>exc = None\<close> have len: "int (length samples) = 17 div 5" by simp
  moreover from len have "2 < length samples" by simp
  with th have "ts_elapsed (samples ! 2) = (int 2 + 1) * 5" by blast
  moreover have "sampling_loop ?e 5 3 0 ([], []) = (exc, samples, tr)"
    using r by simp
  ultimately show ?thesis by simp
qed

lemma saved_precedes:
  assumes "Teardown \<notin> set pre" and "k < length (pre @ Saved rd # post)"
    and "(pre @ Saved rd # post) ! k = Teardown"
  shows "\<exists>j<k. \<exists>rd'. (pre @ Saved rd # post) ! j = Saved rd'"
proof -
  have "\<not> k < length pre"
  proof
    assume less: "k < length pre"
    then have "pre ! k \<in> set pre" by simp
    moreover from less assms(3) have "pre ! k = Teardown" by (simp add: nth_append)
    ultimately show False using assms(1) by simp
  qed
  moreover have "k \<noteq> length pre"
    using assms(3) by (auto simp: nth_append)
  ultimately have "length pre < k" by simp
  moreover have "(pre @ Saved rd # post) ! length pre = Saved rd" by simp
  ultimately show ?thesis by blast
qed

lemma finish_trace:
  assumes "sampling_loop e v n 0 ([], []) = (exc, samples, pre)"
    and "run = finish e nc samples pre pending"
  shows "(write_result e = None
           \<longrightarrow> fst run = pre @ Saved \<lparr>rd_samples = collected pre, rd_end = Some (now_end e)\<rparr>
                          # (if nc then [] else [Teardown]))
    \<and> (\<forall>ev\<in>set pre. (\<exists>s. ev = Collected s) \<or> ev = Slept v)
    \<and> (\<forall>x. write_result e = Some x \<longrightarrow> fst run = pre \<and> snd run = Some x)
    \<and> (\<forall>k<length (fst run). fst run ! k = Teardown \<longrightarrow> (\<exists>j<k. \<exists>rd. fst run ! j = Saved rd))"
proof -
  from loop_invariant [OF assms(1)]
  have kinds: "\<forall>ev\<in>set pre. (\<exists>s. ev = Collected s) \<or> ev = Slept v" by auto
  then have nt: "Teardown \<notin> set pre" by auto
  have col: "collected pre = samples"
    using loop_collected [OF assms(1)] by simp
  have ok: "write_result e = None
           \<longrightarrow> fst run = pre @ Saved \<lparr>rd_samples = collected pre, rd_end = Some (now_end e)\<rparr>
                          # (if nc then [] else [Teardown])"
    by (auto simp: assms(2) finish_def col Let_def split: option.splits)
  have bad: "\<forall>x. write_result e = Some x \<longrightarrow> fst run = pre \<and> snd run = Some x"
    by (simp add: assms(2) finish_def)
  have ord: "\<forall>k<length (fst run). fst run ! k = Teardown
      \<longrightarrow> (\<exists>j<k. \<exists>rd. fst run ! j = Saved rd)"
  proof (cases "write_result e")
    case None
    with ok have shape: "fst run = pre @ Saved \<lparr>rd_samples = collected pre, rd_end = Some (now_end e)\<rparr>
                          # (if nc then [] else [Teardown])" by simp
    show ?thesis
      unfolding shape using saved_precedes [OF nt] by blast
  next
    case (Some x)
    with bad have "fst run = pre" by simp
    with nt show ?thesis by (auto dest: nth_mem)
  qed
  from ok kinds bad ord show ?thesis by blast
qed

text \<open>
  Claim C7. The interval is not 0. However the loop of a tracker ends, by its last round or by an exception such
  as an interrupt, the run is written before the fixture is touched: when writing the file
  succeeds, the steps of the program are those of the loop, then the run saved with an end
  time and with all the samples collected so far, then the teardown unless cleanup is
  switched off, and nothing else. Whether the teardown takes place or fails changes
  nothing in what is saved. When writing fails no teardown is attempted. In every case a
  teardown among the steps comes after a save.
\<close>

theorem run_saved_before_teardown:
  assumes "v \<noteq> 0"
    and "run = track_idle e nc d v \<or> run = track_vpa e nc d v"
    and "pre = snd (snd (sampling_loop e v (d div v) 0 ([], [])))"
  shows "(write_result e = None
           \<longrightarrow> fst run = pre @ Saved \<lparr>rd_samples = collected pre, rd_end = Some (now_end e)\<rparr>
                          # (if nc then [] else [Teardown]))
    \<and> (\<forall>ev\<in>set pre. (\<exists>s. ev = Collected s) \<or> ev = Slept v)
    \<and> (\<forall>x. write_result e = Some x \<longrightarrow> fst run = pre \<and> snd run = Some x)
    \<and> (\<forall>k<length (fst run). fst run ! k = Teardown \<longrightarrow> (\<exists>j<k. \<exists>rd. fst run ! j = Saved rd))"
proof -
  obtain exc samples where r: "sampling_loop e v (d div v) 0 ([], []) = (exc, samples, pre)"
    using assms(3) by (cases "sampling_loop e v (d div v) 0 ([], [])") auto
  from assms(2) show ?thesis
  proof
    assume "run = track_idle e nc d v"
    with assms(1) r have "run = finish e nc samples pre
        (if exc = Some KeyboardInterrupt then None else exc)"
      by (simp add: track_idle_def)
    from finish_trace [OF r this] show ?thesis .
  next
    assume "run = track_vpa e nc d v"
    with assms(1) r have "run = finish e nc samples pre exc"
      by (simp add: track_vpa_def)
    from finish_trace [OF r this] show ?thesis .
  qed
qed

theorem run_saved_before_teardown_witness:
  "(let e = \<lparr>reads = (\<lambda>i. if i = 2 then Inl KeyboardInterrupt
                          else Inr \<lparr>r_request = ''500m'', r_limit = ''500m'', r_usage = ''500m''\<rparr>),
              sleeps = (\<lambda>i. None), now_end = ''end'', write_result = None,
              cleanup_result = None\<rparr>;
        pre = snd (snd (sampling_loop e 5 (17 div 5) 0 ([], [])))
    in (5::int) \<noteq> 0 \<and> write_result e = None \<and> length pre = 4 \<and> length (collected pre) = 2
       \<and> fst (track_idle e False 17 5)
           = pre @ [Saved \<lparr>rd_samples = collected pre, rd_end = Some ''end''\<rparr>, Teardown]
       \<and> fst (track_vpa e True 17 5)
           = pre @ [Saved \<lparr>rd_samples = collected pre, rd_end = Some ''end''\<rparr>])"
proof -
  let ?e = "\<lparr>reads = (\<lambda>i. if i = 2 then Inl KeyboardInterrupt
                          else Inr \<lparr>r_request = ''500m'', r_limit = ''500m'', r_usage = ''500m''\<rparr>),
              sleeps = (\<lambda>i. None), now_end = ''end'', write_result = None,
              cleanup_result = None\<rparr>"
  let ?pre = "snd (snd (sampling_loop ?e 5 (17 div 5) 0 ([], [])))"
  have pos: "(5::int) \<noteq> 0" by simp
  have len: "length ?pre = 4 \<and> length (collected ?pre) = 2"
    by code_simp
  from run_saved_before_teardown [OF pos disjI1 [OF refl] refl, of ?e False 17]
  have a: "fst (track_idle ?e False 17 5)
      = ?pre @ [Saved \<lparr>rd_samples = collected ?pre, rd_end = Some ''end''\<rparr>, Teardown]"
    by simp
  from run_saved_before_teardown [OF pos disjI2 [OF refl] refl, of ?e True 17]
  have b: "fst (track_vpa ?e True 17 5)
      = ?pre @ [Saved \<lparr>rd_samples = collected ?pre, rd_end = Some ''end''\<rparr>]"
    by simp
  from len a b show ?thesis
    unfolding Let_def by simp
qed

end
